theory Spec2Isabelle
  imports Complex_Main
begin

section \<open>The trading strategy of \<^verbatim>\<open>crates/backgambler/src/data/test/test.py\<close>\<close>

text \<open>
  The file defines one class, \<^verbatim>\<open>TestStrategy\<close>, with two callbacks that the
  backtesting engine calls: \<^verbatim>\<open>notify_order(order)\<close> for every change of status of an
  order, and \<^verbatim>\<open>next()\<close> once for every bar. The object has two attributes of its
  own, \<^verbatim>\<open>self.order\<close> and \<^verbatim>\<open>self.bar_executed\<close>; everything else it reads
  (\<^verbatim>\<open>self.dataclose[k]\<close>, \<^verbatim>\<open>self.position\<close>, \<^verbatim>\<open>len(self)\<close>, the date of the
  current bar) belongs to the engine.

  Prices are Python floats; they are modelled as \<^typ>\<open>real\<close>, which agrees with the
  comparison \<^verbatim>\<open><\<close> of two finite floats. The formatting of log messages
  (\<^verbatim>\<open>"%.2f"\<close>, \<^verbatim>\<open>isoformat()\<close>) is not modelled: a log line is the date read
  and a message constructor holding the price.
\<close>

subsection \<open>Data\<close>

datatype error = IndexError | AttributeError

datatype order_status = Submitted | Accepted | Completed | Canceled | Margin | Rejected

datatype side = Buy | Sell

text \<open>A bar of the data feed: only the two columns the strategy reads.\<close>

record bar =
  date :: nat
  close :: real

text \<open>
  The order object handed to \<^verbatim>\<open>notify_order\<close>: \<^verbatim>\<open>order.status\<close>,
  \<^verbatim>\<open>order.isbuy()\<close> / \<^verbatim>\<open>order.issell()\<close> (one field, the side) and
  \<^verbatim>\<open>order.executed.price\<close>.
\<close>

record order_obj =
  status :: order_status
  oside :: side
  executed_price :: real

definition isbuy :: "order_obj \<Rightarrow> bool" where
  "isbuy ord = (oside ord = Buy)"

definition issell :: "order_obj \<Rightarrow> bool" where
  "issell ord = (oside ord = Sell)"

text \<open>
  The attributes of \<^verbatim>\<open>TestStrategy\<close>. \<^verbatim>\<open>self.order\<close> is \<^verbatim>\<open>None\<close> or the
  object returned by \<^verbatim>\<open>self.buy()\<close> / \<^verbatim>\<open>self.sell()\<close>, kept here by its side; an
  order object is truthy, so \<^verbatim>\<open>if self.order:\<close> tests for \<^verbatim>\<open>None\<close>.
  \<^verbatim>\<open>self.bar_executed\<close> is not assigned by \<^verbatim>\<open>__init__\<close>: \<open>None\<close> stands for the
  missing attribute, and reading it then raises \<^verbatim>\<open>AttributeError\<close>.
\<close>

record strategy =
  order :: "side option"
  bar_executed :: "nat option"

definition init :: strategy where
  "init = \<lparr>order = None, bar_executed = None\<rparr>"

datatype log_txt =
    Close_msg real
  | Buy_executed real
  | Sell_executed real
  | Order_failed
  | Buy_create real
  | Sell_create real

type_synonym log_line = "nat \<times> log_txt"

subsection \<open>What the strategy reads from the engine\<close>

text \<open>
  Modelled from the spec: the lookup into a line of the price history
  (\<^verbatim>\<open>self.dataclose[k]\<close>, \<^verbatim>\<open>self.datas[0].datetime.date(0)\<close>), which the imported
  framework implements. The spec's data model: the history is the sequence of bars seen so
  far, index 0 is the current bar, the strategy never looks forward, and a negative-offset
  lookup is bounds-checked and fails when the history is shorter than required. The history
  is kept oldest first.
\<close>

definition getitem :: "'a list \<Rightarrow> int \<Rightarrow> error + 'a" where
  "getitem line ago =
     (if ago \<le> 0 \<and> nat (- ago) < length line
      then Inr (line ! (length line - 1 - nat (- ago)))
      else Inl IndexError)"

definition dataclose :: "bar list \<Rightarrow> int \<Rightarrow> error + real" where
  "dataclose h ago = getitem (map close h) ago"

definition datetime_date :: "bar list \<Rightarrow> int \<Rightarrow> error + nat" where
  "datetime_date h ago = getitem (map date h) ago"

text \<open>
  Modelled from the spec: \<^verbatim>\<open>len(self)\<close>, the engine's count of bars processed so far.
\<close>

definition len_self :: "bar list \<Rightarrow> nat" where
  "len_self h = length h"

subsection \<open>The callbacks\<close>

text \<open>Sequencing of a step that may raise with the rest of the body.\<close>

definition and_then :: "error + 'a \<Rightarrow> ('a \<Rightarrow> error + 'b) \<Rightarrow> error + 'b" where
  "and_then r f = (case r of Inl e \<Rightarrow> Inl e | Inr x \<Rightarrow> f x)"

text \<open>
  \<^verbatim>\<open>log(txt)\<close> with \<^verbatim>\<open>dt\<close> left out: reads the date of the current bar and prints.
  The printed line is returned.
\<close>

definition log_line :: "bar list \<Rightarrow> log_txt \<Rightarrow> error + log_line" where
  "log_line h txt = and_then (datetime_date h 0) (\<lambda>dt. Inr (dt, txt))"

text \<open>
  \<^verbatim>\<open>notify_order\<close>, lines 25 to 44. The result is the updated object and the lines
  printed. The three tests on the status are kept as the source writes them (membership in
  a list), the \<^verbatim>\<open>if\<close> / \<^verbatim>\<open>elif\<close> on the side too; the assignment
  \<^verbatim>\<open>self.order = None\<close> of line 44 is reached from every branch but the first.
\<close>

definition notify_order :: "bar list \<Rightarrow> strategy \<Rightarrow> order_obj \<Rightarrow> error + strategy \<times> log_line list" where
  "notify_order h self ord =
     (if status ord \<in> set [Submitted, Accepted] then Inr (self, [])
      else
        and_then
          (if status ord \<in> set [Completed] then
             and_then
               (if isbuy ord then
                  and_then (log_line h (Buy_executed (executed_price ord))) (\<lambda>l. Inr [l])
                else if issell ord then
                  and_then (log_line h (Sell_executed (executed_price ord))) (\<lambda>l. Inr [l])
                else Inr [])
               (\<lambda>ls. Inr (self\<lparr>bar_executed := Some (len_self h)\<rparr>, ls))
           else if status ord \<in> set [Canceled, Margin, Rejected] then
             and_then (log_line h Order_failed) (\<lambda>l. Inr (self, [l]))
           else Inr (self, []))
          (\<lambda>(self', ls). Inr (self'\<lparr>order := None\<rparr>, ls)))"

text \<open>
  \<^verbatim>\<open>next\<close>, lines 46 to 76 (\<open>next\<close> is a keyword of the proof language, hence the
  suffix). \<open>pos\<close> is the size of \<^verbatim>\<open>self.position\<close>, whose truth value is
  \<^verbatim>\<open>size != 0\<close>. The result is the updated object, the lines printed and the order
  sent to the engine, if any: \<^verbatim>\<open>self.buy()\<close> and \<^verbatim>\<open>self.sell()\<close> are called with
  default parameters, which is a market order, so the request is its side. Every lookup is
  made in the order in which Python evaluates it, and none is guarded by the source.
\<close>

definition next_bar :: "bar list \<Rightarrow> int \<Rightarrow> strategy \<Rightarrow> error + strategy \<times> log_line list \<times> side option" where
  "next_bar h pos self =
     and_then (dataclose h 0) (\<lambda>c.
     and_then (log_line h (Close_msg c)) (\<lambda>l0.
       if order self \<noteq> None then Inr (self, [l0], None)
       else if \<not> (pos \<noteq> 0) then
         and_then (dataclose h 0) (\<lambda>c0.
         and_then (dataclose h (- 1)) (\<lambda>c1.
           if c0 < c1 then
             and_then (dataclose h (- 1)) (\<lambda>c1'.
             and_then (dataclose h (- 2)) (\<lambda>c2.
               if c1' < c2 then
                 and_then (dataclose h 0) (\<lambda>c0'.
                 and_then (log_line h (Buy_create c0')) (\<lambda>l1.
                   Inr (self\<lparr>order := Some Buy\<rparr>, [l0, l1], Some Buy)))
               else Inr (self, [l0], None)))
           else Inr (self, [l0], None)))
       else
         (case bar_executed self of
            None \<Rightarrow> Inl AttributeError
          | Some be \<Rightarrow>
              if len_self h \<ge> be + 5 then
                and_then (dataclose h 0) (\<lambda>c0.
                and_then (log_line h (Sell_create c0)) (\<lambda>l1.
                  Inr (self\<lparr>order := Some Sell\<rparr>, [l0, l1], Some Sell)))
              else Inr (self, [l0], None))))"

text \<open>The order sent by a call of \<open>next_bar\<close>; none when the call raises.\<close>

definition issued :: "error + strategy \<times> log_line list \<times> side option \<Rightarrow> side option" where
  "issued r = (case r of Inl e \<Rightarrow> None | Inr (self, ls, req) \<Rightarrow> req)"

text \<open>
  The same body with everything it reads from the framework taken as parameters, for the
  properties of \<^verbatim>\<open>next\<close> that must not depend on how the framework answers a
  lookup: \<open>look k\<close> is the result of \<^verbatim>\<open>self.dataclose[k]\<close>, \<open>dt k\<close> the result of
  \<^verbatim>\<open>self.datas[0].datetime.date(k)\<close> and \<open>n\<close> the value of \<^verbatim>\<open>len(self)\<close>.
  The source tests none of them against the number of bars.
\<close>

definition log_with :: "(int \<Rightarrow> error + nat) \<Rightarrow> log_txt \<Rightarrow> error + log_line" where
  "log_with dt txt = and_then (dt 0) (\<lambda>d. Inr (d, txt))"

definition next_with ::
  "(int \<Rightarrow> error + real) \<Rightarrow> (int \<Rightarrow> error + nat) \<Rightarrow> nat \<Rightarrow> int \<Rightarrow> strategy
     \<Rightarrow> error + strategy \<times> log_line list \<times> side option" where
  "next_with look dt n pos self =
     and_then (look 0) (\<lambda>c.
     and_then (log_with dt (Close_msg c)) (\<lambda>l0.
       if order self \<noteq> None then Inr (self, [l0], None)
       else if \<not> (pos \<noteq> 0) then
         and_then (look 0) (\<lambda>c0.
         and_then (look (- 1)) (\<lambda>c1.
           if c0 < c1 then
             and_then (look (- 1)) (\<lambda>c1'.
             and_then (look (- 2)) (\<lambda>c2.
               if c1' < c2 then
                 and_then (look 0) (\<lambda>c0'.
                 and_then (log_with dt (Buy_create c0')) (\<lambda>l1.
                   Inr (self\<lparr>order := Some Buy\<rparr>, [l0, l1], Some Buy)))
               else Inr (self, [l0], None)))
           else Inr (self, [l0], None)))
       else
         (case bar_executed self of
            None \<Rightarrow> Inl AttributeError
          | Some be \<Rightarrow>
              if n \<ge> be + 5 then
                and_then (look 0) (\<lambda>c0.
                and_then (log_with dt (Sell_create c0)) (\<lambda>l1.
                  Inr (self\<lparr>order := Some Sell\<rparr>, [l0, l1], Some Sell)))
              else Inr (self, [l0], None))))"

subsection \<open>The engine\<close>

text \<open>
  Modelled from the spec: the Backtest Engine, the external collaborator that owns the
  price history and the position, calls the two callbacks and executes the orders
  (the imported backtesting framework; none of it is in the repository). The spec's
  description: it delivers one bar at a time and calls \<^verbatim>\<open>next\<close>; it delivers
  order-status notifications about the orders the strategy has sent, in any number between
  two bars; the position changes only on a \<open>Completed\<close> notification (a completed buy
  sets the quantity, a completed sell of the same size clears it); an order stops being
  pending at its terminal status (\<open>Completed\<close>, \<open>Canceled\<close>, \<open>Margin\<close>,
  \<open>Rejected\<close>). An exception raised by a callback ends the run.

  The orders in flight are kept in a list, so that the strategy sending a second order
  while one is pending is a state of the model. Every order has the size \<open>stake\<close>.
  A notification names the order in flight it is about by its index; one about an order
  that is not in flight is not delivered. A run starts flat, with a fresh strategy object
  and a history \<open>h0\<close> of bars already in the series (possibly none); the properties of runs
  are proved for every \<open>h0\<close>. With fewer than two bars in \<open>h0\<close> the first call of
  \<^verbatim>\<open>next\<close> fails in this model of the lookup, since the source does not guard its lookback.
\<close>

record system =
  strat :: strategy
  data :: "bar list"
  position :: int
  inflight :: "side list"

datatype event = On_bar bar | On_order_update nat order_status real

definition init_system :: "bar list \<Rightarrow> system" where
  "init_system h0 = \<lparr>strat = init, data = h0, position = 0, inflight = []\<rparr>"

definition terminal :: "order_status \<Rightarrow> bool" where
  "terminal st = (st \<in> set [Completed, Canceled, Margin, Rejected])"

definition executed :: "nat \<Rightarrow> side \<Rightarrow> int \<Rightarrow> int" where
  "executed stake sd pos = (case sd of Buy \<Rightarrow> pos + int stake | Sell \<Rightarrow> pos - int stake)"

definition drop_nth :: "nat \<Rightarrow> 'a list \<Rightarrow> 'a list" where
  "drop_nth i xs = take i xs @ drop (Suc i) xs"

fun step :: "nat \<Rightarrow> system \<Rightarrow> event \<Rightarrow> error + system" where
  "step stake sys (On_bar b) =
     and_then (next_bar (data sys @ [b]) (position sys) (strat sys)) (\<lambda>(self', ls, req).
       Inr (sys\<lparr>strat := self', data := data sys @ [b],
                inflight := inflight sys @ (case req of None \<Rightarrow> [] | Some sd \<Rightarrow> [sd])\<rparr>))"
| "step stake sys (On_order_update i st p) =
     (if i < length (inflight sys) then
        and_then
          (notify_order (data sys) (strat sys)
             \<lparr>status = st, oside = inflight sys ! i, executed_price = p\<rparr>)
          (\<lambda>(self', ls).
             Inr (sys\<lparr>strat := self',
                      position := (if st = Completed
                                   then executed stake (inflight sys ! i) (position sys)
                                   else position sys),
                      inflight := (if terminal st then drop_nth i (inflight sys)
                                   else inflight sys)\<rparr>))
      else Inr sys)"

fun run :: "nat \<Rightarrow> system \<Rightarrow> event list \<Rightarrow> error + system" where
  "run stake sys [] = Inr sys"
| "run stake sys (e # es) = and_then (step stake sys e) (\<lambda>sys'. run stake sys' es)"

text \<open>
  The states that a run can reach: the orders in flight are exactly the pending order of
  the strategy, a pending order implies a bar has been seen, the position is zero or one
  stake, a position implies that \<^verbatim>\<open>bar_executed\<close> has been assigned, a buy is
  pending only when flat and a sell only when long.
\<close>

definition inv :: "nat \<Rightarrow> system \<Rightarrow> bool" where
  "inv stake sys =
     (inflight sys = (case order (strat sys) of None \<Rightarrow> [] | Some sd \<Rightarrow> [sd]) \<and>
      (order (strat sys) \<noteq> None \<longrightarrow> data sys \<noteq> []) \<and>
      (position sys = 0 \<or> position sys = int stake) \<and>
      (position sys \<noteq> 0 \<longrightarrow> bar_executed (strat sys) \<noteq> None) \<and>
      (order (strat sys) = Some Buy \<longrightarrow> position sys = 0) \<and>
      (order (strat sys) = Some Sell \<longrightarrow> position sys = int stake \<and> position sys \<noteq> 0))"

section \<open>Properties\<close>

subsection \<open>Evaluation of the lookups and of the callbacks\<close>

lemma and_then_Inl [simp]: "and_then (Inl e) f = Inl e"
  by (simp add: and_then_def)

lemma and_then_Inr [simp]: "and_then (Inr x) f = f x"
  by (simp add: and_then_def)

lemma getitem_0_snoc [simp]: "getitem (xs @ [x]) 0 = Inr x"
  by (simp add: getitem_def)

lemma getitem_1_snoc [simp]: "getitem (xs @ [y, x]) (- 1) = Inr y"
  by (simp add: getitem_def nth_append)

lemma getitem_2_snoc [simp]: "getitem (xs @ [z, y, x]) (- 2) = Inr z"
  by (simp add: getitem_def nth_append)

lemma getitem_short: "length xs \<le> k \<Longrightarrow> getitem xs (- int k) = Inl IndexError"
  by (simp add: getitem_def)

lemma dataclose_0 [simp]: "dataclose (hs @ [b0]) 0 = Inr (close b0)"
  by (simp add: dataclose_def)

lemma dataclose_1 [simp]: "dataclose (hs @ [b1, b0]) (- 1) = Inr (close b1)"
  by (simp add: dataclose_def)

lemma dataclose_2 [simp]: "dataclose (hs @ [b2, b1, b0]) (- 2) = Inr (close b2)"
  by (simp add: dataclose_def)

lemma dataclose_Nil [simp]: "dataclose [] ago = Inl IndexError"
  by (simp add: dataclose_def getitem_def)

lemma dataclose_1_single [simp]: "dataclose [b0] (- 1) = Inl IndexError"
  by (simp add: dataclose_def getitem_def)

lemma dataclose_2_pair [simp]: "dataclose [b1, b0] (- 2) = Inl IndexError"
  by (simp add: dataclose_def getitem_def)

lemma log_line_snoc [simp]: "log_line (hs @ [b0]) txt = Inr (date b0, txt)"
  by (simp add: log_line_def datetime_date_def)

lemma history_cases:
  obtains (none) "h = []"
  | (one) b0 where "h = [b0]"
  | (two) b1 b0 where "h = [b1, b0]"
  | (more) hs b2 b1 b0 where "h = hs @ [b2, b1, b0]"
proof (cases h rule: rev_cases)
  case Nil
  then show ?thesis by (rule none)
next
  case (snoc h1 b0)
  note h = this
  show ?thesis
  proof (cases h1 rule: rev_cases)
    case Nil
    with h show ?thesis by (simp add: one)
  next
    case (snoc h2 b1)
    note h1 = this
    show ?thesis
    proof (cases h2 rule: rev_cases)
      case Nil
      with h h1 show ?thesis by (simp add: two)
    next
      case (snoc h3 b2)
      with h h1 show ?thesis by (simp add: more)
    qed
  qed
qed

text \<open>
  The result of \<open>next_bar\<close> in each region of its input: an order pending, flat with
  three bars or more, in the market, and the short histories.
\<close>

lemma next_bar_pending:
  "order self \<noteq> None \<Longrightarrow>
   next_bar (hs @ [b0]) pos self = Inr (self, [(date b0, Close_msg (close b0))], None)"
  by (simp add: next_bar_def)

lemma next_bar_flat:
  "order self = None \<Longrightarrow>
   next_bar (hs @ [b2, b1, b0]) 0 self =
     (if close b0 < close b1 \<and> close b1 < close b2
      then Inr (self\<lparr>order := Some Buy\<rparr>,
                [(date b0, Close_msg (close b0)), (date b0, Buy_create (close b0))], Some Buy)
      else Inr (self, [(date b0, Close_msg (close b0))], None))"
  using dataclose_0 [of "hs @ [b2, b1]" b0] dataclose_1 [of "hs @ [b2]" b1 b0]
    log_line_snoc [of "hs @ [b2, b1]" b0]
  by (simp add: next_bar_def)

lemma next_bar_long:
  "order self = None \<Longrightarrow> pos \<noteq> 0 \<Longrightarrow> bar_executed self = Some i \<Longrightarrow>
   next_bar (hs @ [b0]) pos self =
     (if i + 5 \<le> len_self (hs @ [b0])
      then Inr (self\<lparr>order := Some Sell\<rparr>,
                [(date b0, Close_msg (close b0)), (date b0, Sell_create (close b0))], Some Sell)
      else Inr (self, [(date b0, Close_msg (close b0))], None))"
  by (simp add: next_bar_def)

lemma next_bar_unset:
  "order self = None \<Longrightarrow> pos \<noteq> 0 \<Longrightarrow> bar_executed self = None \<Longrightarrow>
   next_bar (hs @ [b0]) pos self = Inl AttributeError"
  by (simp add: next_bar_def)

lemma next_bar_Nil: "next_bar [] pos self = Inl IndexError"
  by (simp add: next_bar_def)

lemma next_bar_one: "order self = None \<Longrightarrow> next_bar [b0] 0 self = Inl IndexError"
  using dataclose_0 [of "[]" b0] log_line_snoc [of "[]" b0]
  by (simp add: next_bar_def)

lemma next_bar_two:
  "order self = None \<Longrightarrow>
   next_bar [b1, b0] 0 self =
     (if close b0 < close b1 then Inl IndexError
      else Inr (self, [(date b0, Close_msg (close b0))], None))"
  using dataclose_0 [of "[b1]" b0] log_line_snoc [of "[b1]" b0] dataclose_1 [of "[]" b1 b0]
  by (simp add: next_bar_def)

subsection \<open>Evaluation of \<open>notify_order\<close>\<close>

lemma notify_order_informational:
  "status ord = Submitted \<or> status ord = Accepted \<Longrightarrow> notify_order h self ord = Inr (self, [])"
  by (auto simp add: notify_order_def)

lemma notify_order_completed:
  "status ord = Completed \<Longrightarrow>
   notify_order (hs @ [b0]) self ord =
     Inr (self\<lparr>bar_executed := Some (len_self (hs @ [b0])), order := None\<rparr>,
          [(date b0, if isbuy ord then Buy_executed (executed_price ord)
                     else Sell_executed (executed_price ord))])"
  by (cases "oside ord") (simp_all add: notify_order_def isbuy_def issell_def)

lemma notify_order_failed:
  "status ord = Canceled \<or> status ord = Margin \<or> status ord = Rejected \<Longrightarrow>
   notify_order (hs @ [b0]) self ord = Inr (self\<lparr>order := None\<rparr>, [(date b0, Order_failed)])"
  by (auto simp add: notify_order_def)

subsection \<open>The invariant of the engine and the strategy together\<close>

lemma inv_init: "inv stake (init_system h0)"
  by (simp add: inv_def init_system_def init_def)

lemma step_bar_cases:
  assumes "inv stake sys"
  shows "step stake sys (On_bar b) = Inl IndexError
       \<or> step stake sys (On_bar b) = Inr (sys\<lparr>data := data sys @ [b]\<rparr>)
       \<or> (order (strat sys) = None \<and> position sys = 0 \<and>
          step stake sys (On_bar b) =
            Inr (sys\<lparr>strat := (strat sys)\<lparr>order := Some Buy\<rparr>, data := data sys @ [b],
                     inflight := [Buy]\<rparr>))
       \<or> (order (strat sys) = None \<and> position sys \<noteq> 0 \<and>
          step stake sys (On_bar b) =
            Inr (sys\<lparr>strat := (strat sys)\<lparr>order := Some Sell\<rparr>, data := data sys @ [b],
                     inflight := [Sell]\<rparr>))"
proof (cases "order (strat sys) = None")
  case False
  with assms show ?thesis
    by (auto simp add: next_bar_pending inv_def)
next
  case pend: True
  show ?thesis
  proof (cases "position sys = 0")
    case flat: True
    show ?thesis
    proof (cases "data sys @ [b]" rule: history_cases)
      case none
      then show ?thesis by simp
    next
      case (one b0)
      with pend flat show ?thesis by (simp add: next_bar_one)
    next
      case (two b1 b0)
      with pend flat assms show ?thesis by (simp add: next_bar_two inv_def)
    next
      case (more hs b2 b1 b0)
      with pend flat assms show ?thesis by (simp add: next_bar_flat inv_def)
    qed
  next
    case long: False
    with assms obtain i where "bar_executed (strat sys) = Some i"
      by (auto simp add: inv_def)
    with pend long assms show ?thesis
      by (simp add: next_bar_long inv_def)
  qed
qed

lemma step_update_absent:
  "\<not> i < length (inflight sys) \<Longrightarrow> step stake sys (On_order_update i st p) = Inr sys"
  by simp

lemma step_update_cases:
  assumes "inv stake sys" and "i < length (inflight sys)"
  shows "\<exists>sd hs b0. i = 0 \<and> order (strat sys) = Some sd \<and> inflight sys = [sd] \<and>
           data sys = hs @ [b0] \<and>
           step stake sys (On_order_update i st p) =
             (if st = Submitted \<or> st = Accepted then Inr sys
              else if st = Completed then
                Inr (sys\<lparr>strat := (strat sys)\<lparr>bar_executed := Some (len_self (data sys)),
                                               order := None\<rparr>,
                         position := executed stake sd (position sys), inflight := []\<rparr>)
              else Inr (sys\<lparr>strat := (strat sys)\<lparr>order := None\<rparr>, inflight := []\<rparr>))"
proof -
  from assms obtain sd where sd: "order (strat sys) = Some sd" "inflight sys = [sd]" "i = 0"
    by (cases "order (strat sys)") (auto simp add: inv_def)
  with assms have "data sys \<noteq> []"
    by (simp add: inv_def)
  then obtain hs b0 where h: "data sys = hs @ [b0]"
    by (cases "data sys" rule: rev_cases) auto
  have "step stake sys (On_order_update i st p) =
             (if st = Submitted \<or> st = Accepted then Inr sys
              else if st = Completed then
                Inr (sys\<lparr>strat := (strat sys)\<lparr>bar_executed := Some (len_self (data sys)),
                                               order := None\<rparr>,
                         position := executed stake sd (position sys), inflight := []\<rparr>)
              else Inr (sys\<lparr>strat := (strat sys)\<lparr>order := None\<rparr>, inflight := []\<rparr>))"
    using sd h
    by (cases st)
      (simp_all add: notify_order_informational notify_order_completed notify_order_failed
        terminal_def drop_nth_def)
  with sd h show ?thesis by blast
qed

lemma step_inv:
  assumes "inv stake sys" and "step stake sys e = Inr sys'"
  shows "inv stake sys'"
proof (cases e)
  case (On_bar b)
  with step_bar_cases [OF assms(1), of b] assms show ?thesis
    by (auto simp add: inv_def)
next
  case (On_order_update i st p)
  show ?thesis
  proof (cases "i < length (inflight sys)")
    case False
    with On_order_update assms show ?thesis by simp
  next
    case True
    from step_update_cases [OF assms(1) True, of st p] On_order_update assms show ?thesis
      by (auto simp add: inv_def executed_def split: if_splits side.splits)
  qed
qed

lemma step_no_attribute_error:
  assumes "inv stake sys"
  shows "step stake sys e \<noteq> Inl AttributeError"
proof (cases e)
  case (On_bar b)
  with step_bar_cases [OF assms, of b] show ?thesis by auto
next
  case (On_order_update i st p)
  show ?thesis
  proof (cases "i < length (inflight sys)")
    case False
    with On_order_update show ?thesis by simp
  next
    case True
    from step_update_cases [OF assms True, of st p] On_order_update show ?thesis
      by (auto split: if_splits)
  qed
qed

lemma run_inv:
  "inv stake sys \<Longrightarrow> run stake sys evs = Inr sys' \<Longrightarrow> inv stake sys'"
proof (induction evs arbitrary: sys)
  case Nil
  then show ?case by simp
next
  case (Cons e es)
  then show ?case
    by (cases "step stake sys e") (auto dest: step_inv)
qed

lemma run_no_attribute_error:
  "inv stake sys \<Longrightarrow> run stake sys evs \<noteq> Inl AttributeError"
proof (induction evs arbitrary: sys)
  case Nil
  then show ?case by simp
next
  case (Cons e es)
  show ?case
  proof (cases "step stake sys e")
    case (Inl err)
    with step_no_attribute_error [OF Cons.prems, of e] show ?thesis by simp
  next
    case (Inr sys1)
    with Cons.prems have "inv stake sys1" by (simp add: step_inv)
    with Inr Cons.IH [of sys1] show ?thesis by simp
  qed
qed

lemma step_total:
  assumes "inv stake sys" and "2 \<le> length (data sys)"
  shows "\<exists>sys'. step stake sys e = Inr sys' \<and> 2 \<le> length (data sys')"
proof (cases e)
  case (On_bar b)
  have "step stake sys (On_bar b) \<noteq> Inl IndexError"
  proof (cases "order (strat sys) = None")
    case False
    then show ?thesis by (simp add: next_bar_pending)
  next
    case pend: True
    show ?thesis
    proof (cases "position sys = 0")
      case flat: True
      from assms(2) obtain hs b2 b1 where "data sys @ [b] = hs @ [b2, b1, b]"
        by (cases "data sys @ [b]" rule: history_cases) auto
      with pend flat show ?thesis by (simp add: next_bar_flat)
    next
      case long: False
      with assms obtain i where "bar_executed (strat sys) = Some i"
        by (auto simp add: inv_def)
      with pend long show ?thesis by (simp add: next_bar_long)
    qed
  qed
  with step_bar_cases [OF assms(1), of b] On_bar assms(2) show ?thesis
    by auto
next
  case (On_order_update i st p)
  show ?thesis
  proof (cases "i < length (inflight sys)")
    case False
    with On_order_update assms show ?thesis by simp
  next
    case True
    from step_update_cases [OF assms(1) True, of st p] obtain sys1
      where "step stake sys (On_order_update i st p) = Inr sys1" "data sys1 = data sys"
      by (auto split: if_splits)
    with On_order_update assms(2) show ?thesis
      by (simp del: step.simps)
  qed
qed

lemma run_total:
  "inv stake sys \<Longrightarrow> 2 \<le> length (data sys) \<Longrightarrow> \<exists>sys'. run stake sys evs = Inr sys'"
proof (induction evs arbitrary: sys)
  case Nil
  then show ?case by simp
next
  case (Cons e es)
  from step_total [OF Cons.prems, of e] obtain sys1
    where s: "step stake sys e = Inr sys1" "2 \<le> length (data sys1)" by blast
  with Cons.prems have "inv stake sys1" by (simp add: step_inv)
  with s Cons.IH [of sys1] show ?case by simp
qed

subsection \<open>Claims about one call\<close>

text \<open>
  C6. In every state, \<^verbatim>\<open>notify_order\<close> with status \<open>Submitted\<close> or \<open>Accepted\<close>
  returns at once: the object is unchanged (the pending order stays as it is,
  \<^verbatim>\<open>bar_executed\<close> too), nothing is printed, and no order can be sent from this callback.
  In the engine the whole state is unchanged: the position and the orders in flight too.
\<close>

theorem informational_update_changes_nothing:
  assumes "st = Submitted \<or> st = Accepted"
  shows "notify_order h self \<lparr>status = st, oside = sd, executed_price = p\<rparr> = Inr (self, [])
       \<and> step stake sys (On_order_update i st p) = Inr sys"
proof -
  have n: "notify_order h self \<lparr>status = st, oside = sd, executed_price = p\<rparr> = Inr (self, [])"
    for h self sd
    using assms by (simp add: notify_order_informational)
  from assms have "st \<noteq> Completed" and "\<not> terminal st"
    by (auto simp add: terminal_def)
  then have "step stake sys (On_order_update i st p) = Inr sys"
    by (simp add: n)
  with n show ?thesis by simp
qed

theorem informational_update_changes_nothing_witness:
  "notify_order [] \<lparr>order = Some Buy, bar_executed = None\<rparr>
     \<lparr>status = Accepted, oside = Buy, executed_price = 8\<rparr>
     = Inr (\<lparr>order = Some Buy, bar_executed = None\<rparr>, [])
   \<and> step 1 \<lparr>strat = \<lparr>order = Some Buy, bar_executed = None\<rparr>,
              data = [\<lparr>date = 1, close = 10\<rparr>, \<lparr>date = 2, close = 9\<rparr>, \<lparr>date = 3, close = 8\<rparr>],
              position = 0, inflight = [Buy]\<rparr> (On_order_update 0 Accepted 8)
     = Inr \<lparr>strat = \<lparr>order = Some Buy, bar_executed = None\<rparr>,
            data = [\<lparr>date = 1, close = 10\<rparr>, \<lparr>date = 2, close = 9\<rparr>, \<lparr>date = 3, close = 8\<rparr>],
            position = 0, inflight = [Buy]\<rparr>"
  using informational_update_changes_nothing [of Accepted "[]"
      "\<lparr>order = Some Buy, bar_executed = None\<rparr>" Buy 8 1
      "\<lparr>strat = \<lparr>order = Some Buy, bar_executed = None\<rparr>,
              data = [\<lparr>date = 1, close = 10\<rparr>, \<lparr>date = 2, close = 9\<rparr>, \<lparr>date = 3, close = 8\<rparr>],
              position = 0, inflight = [Buy]\<rparr>" 0]
  by simp

text \<open>
  C10. A \<open>Completed\<close> notification assigns the current bar count to
  \<^verbatim>\<open>bar_executed\<close> whatever the side of the order: after a completed sell the
  attribute holds the bar count of the exit, not the one recorded at the entry. The pending
  order is cleared in the same call.
\<close>

theorem completed_overwrites_bar_executed:
  assumes "h \<noteq> []"
  shows "notify_order h self \<lparr>status = Completed, oside = sd, executed_price = p\<rparr>
           = Inr (self\<lparr>bar_executed := Some (len_self h), order := None\<rparr>,
                  [(date (last h), case sd of Buy \<Rightarrow> Buy_executed p | Sell \<Rightarrow> Sell_executed p)])"
proof -
  from assms obtain hs b0 where "h = hs @ [b0]"
    by (cases h rule: rev_cases) auto
  then show ?thesis
    by (cases sd) (simp_all add: notify_order_completed isbuy_def)
qed

theorem completed_overwrites_bar_executed_witness:
  "notify_order [\<lparr>date = 1, close = 10\<rparr>, \<lparr>date = 2, close = 9\<rparr>]
          \<lparr>order = Some Sell, bar_executed = Some 1\<rparr>
          \<lparr>status = Completed, oside = Sell, executed_price = 9\<rparr>
        = Inr (\<lparr>order = None, bar_executed = Some 2\<rparr>, [(2, Sell_executed 9)])"
  using completed_overwrites_bar_executed [of "[\<lparr>date = 1, close = 10\<rparr>, \<lparr>date = 2, close = 9\<rparr>]"
      "\<lparr>order = Some Sell, bar_executed = Some 1\<rparr>" Sell 9]
  by (simp add: len_self_def numeral_2_eq_2)

text \<open>
  C8. While an order is pending, \<^verbatim>\<open>next\<close> prints the close and returns: the object
  is unchanged and no order is sent, for every history, position and value of
  \<^verbatim>\<open>bar_executed\<close>, so also when the entry or the exit condition holds and for a
  pending buy as for a pending sell. In the engine only the history grows by the new bar.
\<close>

theorem pending_next_is_noop:
  assumes "order self \<noteq> None" and "order (strat sys) \<noteq> None"
  shows "next_bar (hs @ [b0]) pos self = Inr (self, [(date b0, Close_msg (close b0))], None)
       \<and> step stake sys (On_bar b) = Inr (sys\<lparr>data := data sys @ [b]\<rparr>)"
  using assms by (simp add: next_bar_pending)

theorem pending_next_is_noop_witness:
  "next_bar ([\<lparr>date = 1, close = 10\<rparr>, \<lparr>date = 2, close = 9\<rparr>] @ [\<lparr>date = 3, close = 8\<rparr>]) 0
      \<lparr>order = Some Buy, bar_executed = None\<rparr>
     = Inr (\<lparr>order = Some Buy, bar_executed = None\<rparr>, [(3, Close_msg 8)], None)
   \<and> step 1 \<lparr>strat = \<lparr>order = Some Sell, bar_executed = Some 0\<rparr>, data = [],
              position = 1, inflight = [Sell]\<rparr> (On_bar \<lparr>date = 9, close = 5\<rparr>)
     = Inr \<lparr>strat = \<lparr>order = Some Sell, bar_executed = Some 0\<rparr>,
            data = [\<lparr>date = 9, close = 5\<rparr>], position = 1, inflight = [Sell]\<rparr>"
  using pending_next_is_noop [of "\<lparr>order = Some Buy, bar_executed = None\<rparr>"
      "\<lparr>strat = \<lparr>order = Some Sell, bar_executed = Some 0\<rparr>, data = [],
              position = 1, inflight = [Sell]\<rparr>"
      "[\<lparr>date = 1, close = 10\<rparr>, \<lparr>date = 2, close = 9\<rparr>]" "\<lparr>date = 3, close = 8\<rparr>" 0 1
      "\<lparr>date = 9, close = 5\<rparr>"]
  by simp

lemma issued_simps [simp]:
  "issued (Inl e) = None"
  "issued (Inr (self, ls, req)) = req"
  by (simp_all add: issued_def)

lemma next_bar_no_buy:
  assumes "pos \<noteq> 0 \<or> order self \<noteq> None"
  shows "issued (next_bar h pos self) \<noteq> Some Buy"
proof (cases h rule: rev_cases)
  case Nil
  then show ?thesis by (simp add: next_bar_Nil)
next
  case (snoc hs b0)
  show ?thesis
  proof (cases "order self = None")
    case False
    with snoc show ?thesis by (simp add: next_bar_pending)
  next
    case True
    with assms have pos: "pos \<noteq> 0" by simp
    show ?thesis
    proof (cases "bar_executed self")
      case None
      with snoc True pos show ?thesis by (simp add: next_bar_unset)
    next
      case (Some i)
      with snoc True pos show ?thesis by (simp add: next_bar_long)
    qed
  qed
qed

text \<open>
  C2. Flat (position zero, no pending order) with three bars or more, the last three closes
  being \<open>close b2\<close>, \<open>close b1\<close>, \<open>close b0\<close> (the current one): \<^verbatim>\<open>next\<close> sends
  a buy if and only if \<open>close b0 < close b1\<close> and \<open>close b1 < close b2\<close>, and sends
  nothing otherwise; with two equal neighbouring closes nothing is sent. From a state that is
  not flat (a position, or a pending order) no buy is sent, whatever the history.
\<close>

theorem entry_condition_exact:
  assumes "order self = None"
  shows "(issued (next_bar (hs @ [b2, b1, b0]) 0 self) = Some Buy
            \<longleftrightarrow> close b0 < close b1 \<and> close b1 < close b2)
       \<and> (issued (next_bar (hs @ [b2, b1, b0]) 0 self) \<noteq> Some Buy
            \<longrightarrow> next_bar (hs @ [b2, b1, b0]) 0 self
                  = Inr (self, [(date b0, Close_msg (close b0))], None))
       \<and> (close b0 = close b1 \<or> close b1 = close b2
            \<longrightarrow> issued (next_bar (hs @ [b2, b1, b0]) 0 self) = None)
       \<and> (\<forall>h pos s. pos \<noteq> 0 \<or> order s \<noteq> None \<longrightarrow> issued (next_bar h pos s) \<noteq> Some Buy)"
  using assms by (auto simp add: next_bar_flat next_bar_no_buy)

theorem entry_condition_exact_witness:
  "order init = None
   \<and> issued (next_bar ([] @ [\<lparr>date = 1, close = 10\<rparr>, \<lparr>date = 2, close = 9\<rparr>, \<lparr>date = 3, close = 8\<rparr>]) 0 init)
     = Some Buy
   \<and> issued (next_bar [\<lparr>date = 1, close = 10\<rparr>, \<lparr>date = 2, close = 9\<rparr>, \<lparr>date = 3, close = 8\<rparr>] 1
        \<lparr>order = None, bar_executed = Some 0\<rparr>) \<noteq> Some Buy"
  using entry_condition_exact [of init "[]" "\<lparr>date = 1, close = 10\<rparr>" "\<lparr>date = 2, close = 9\<rparr>"
      "\<lparr>date = 3, close = 8\<rparr>"]
  by (simp add: init_def)

text \<open>
  C3. In the market (position not zero) with no pending order and \<^verbatim>\<open>bar_executed\<close>
  equal to \<open>i\<close>: \<^verbatim>\<open>next\<close> sends a sell if and only if the bar count is at least
  \<open>i + 5\<close>. On every earlier bar it prints the close and does nothing else; on the bar
  with count \<open>i + 5\<close> the sell is sent and recorded as the pending order.
\<close>

theorem exit_timing_exact:
  assumes "order self = None" and "bar_executed self = Some i" and "pos \<noteq> 0" and "h \<noteq> []"
  shows "(issued (next_bar h pos self) = Some Sell \<longleftrightarrow> i + 5 \<le> len_self h)
       \<and> (len_self h < i + 5
            \<longrightarrow> next_bar h pos self = Inr (self, [(date (last h), Close_msg (close (last h)))], None))
       \<and> (len_self h = i + 5
            \<longrightarrow> next_bar h pos self
                  = Inr (self\<lparr>order := Some Sell\<rparr>,
                         [(date (last h), Close_msg (close (last h))),
                          (date (last h), Sell_create (close (last h)))], Some Sell))"
proof -
  from assms(4) obtain hs b0 where "h = hs @ [b0]"
    by (cases h rule: rev_cases) auto
  with assms show ?thesis
    by (simp add: next_bar_long)
qed

theorem exit_timing_exact_witness:
  "issued (next_bar [\<lparr>date = 1, close = 10\<rparr>, \<lparr>date = 2, close = 9\<rparr>, \<lparr>date = 3, close = 8\<rparr>,
                    \<lparr>date = 4, close = 7\<rparr>, \<lparr>date = 5, close = 7\<rparr>, \<lparr>date = 6, close = 7\<rparr>] 1
            \<lparr>order = None, bar_executed = Some 1\<rparr>) = Some Sell
   \<and> issued (next_bar [\<lparr>date = 1, close = 10\<rparr>, \<lparr>date = 2, close = 9\<rparr>, \<lparr>date = 3, close = 8\<rparr>,
                    \<lparr>date = 4, close = 7\<rparr>, \<lparr>date = 5, close = 7\<rparr>] 1
            \<lparr>order = None, bar_executed = Some 1\<rparr>) \<noteq> Some Sell"
  using exit_timing_exact [of "\<lparr>order = None, bar_executed = Some 1\<rparr>" 1 1
      "[\<lparr>date = 1, close = 10\<rparr>, \<lparr>date = 2, close = 9\<rparr>, \<lparr>date = 3, close = 8\<rparr>,
        \<lparr>date = 4, close = 7\<rparr>, \<lparr>date = 5, close = 7\<rparr>, \<lparr>date = 6, close = 7\<rparr>]"]
    exit_timing_exact [of "\<lparr>order = None, bar_executed = Some 1\<rparr>" 1 1
      "[\<lparr>date = 1, close = 10\<rparr>, \<lparr>date = 2, close = 9\<rparr>, \<lparr>date = 3, close = 8\<rparr>,
        \<lparr>date = 4, close = 7\<rparr>, \<lparr>date = 5, close = 7\<rparr>]"]
  by (simp add: len_self_def)

lemma log_line_log_with: "log_line h txt = log_with (datetime_date h) txt"
  by (simp add: log_line_def log_with_def)

lemma next_bar_next_with:
  "next_bar h pos self = next_with (dataclose h) (datetime_date h) (len_self h) pos self"
  unfolding next_bar_def next_with_def log_line_log_with by (rule refl)

lemma next_with_flat:
  assumes "order self = None" and "look 0 = Inr c0" and "dt 0 = Inr d"
  shows "next_with look dt n 0 self =
     (case look (- 1) of
        Inl e \<Rightarrow> Inl e
      | Inr c1 \<Rightarrow>
          if c0 < c1 then
            (case look (- 2) of
               Inl e \<Rightarrow> Inl e
             | Inr c2 \<Rightarrow>
                 if c1 < c2
                 then Inr (self\<lparr>order := Some Buy\<rparr>, [(d, Close_msg c0), (d, Buy_create c0)], Some Buy)
                 else Inr (self, [(d, Close_msg c0)], None))
          else Inr (self, [(d, Close_msg c0)], None))"
  using assms by (simp add: next_with_def log_with_def split: sum.splits)

text \<open>
  C4, as stated, fails. With one bar (\<open>len(self) = 1\<close>), flat, when the lookups
  \<^verbatim>\<open>self.dataclose[0]\<close>, \<^verbatim>\<open>[-1]\<close>, \<^verbatim>\<open>[-2]\<close> answer 8, 9 and 10 (as a buffer
  holding the whole feed answers a negative index that runs past its start from its end),
  \<^verbatim>\<open>next\<close> sends a buy: nothing in it looks at the number of bars.
\<close>

theorem history_guard_counterexample:
  "(1::nat) < 3 \<and> order init = None
   \<and> next_with (\<lambda>ago. Inr (if ago = 0 then 8 else if ago = - 1 then 9 else 10)) (\<lambda>ago. Inr 1) 1 0 init
       = Inr (init\<lparr>order := Some Buy\<rparr>, [(1, Close_msg 8), (1, Buy_create 8)], Some Buy)"
  by (simp add: next_with_flat init_def)

text \<open>
  C4, amended. Flat with fewer than three bars, the current bar being readable,
  \<^verbatim>\<open>next\<close> behaves as with any other number of bars: it raises no error of its own
  (an error of the call is the error of the lookup \<^verbatim>\<open>self.dataclose[-1]\<close> or
  \<^verbatim>\<open>self.dataclose[-2]\<close>), it sends a buy exactly when both lookups answer and the three
  closes fall strictly, it never sends a sell, and in every other case in which the lookups
  answer it only prints the close and changes nothing.
\<close>

theorem history_guard_amended:
  assumes "n < 3" and "order self = None" and "look 0 = Inr c0" and "dt 0 = Inr d"
  shows "(issued (next_with look dt n 0 self) = Some Buy
            \<longleftrightarrow> (\<exists>c1 c2. look (- 1) = Inr c1 \<and> look (- 2) = Inr c2 \<and> c0 < c1 \<and> c1 < c2))
       \<and> issued (next_with look dt n 0 self) \<noteq> Some Sell
       \<and> (\<forall>e. next_with look dt n 0 self = Inl e \<longrightarrow> look (- 1) = Inl e \<or> look (- 2) = Inl e)
       \<and> (\<forall>c1. look (- 1) = Inr c1 \<and> \<not> c0 < c1
              \<longrightarrow> next_with look dt n 0 self = Inr (self, [(d, Close_msg c0)], None))
       \<and> (\<forall>c1 c2. look (- 1) = Inr c1 \<and> look (- 2) = Inr c2 \<and> \<not> c1 < c2
              \<longrightarrow> next_with look dt n 0 self = Inr (self, [(d, Close_msg c0)], None))"
  using next_with_flat [of self look c0 dt d n] assms(2-4)
  by (auto split: sum.splits if_splits)

theorem history_guard_amended_witness:
  "(2::nat) < 3 \<and> order init = None
   \<and> issued (next_with (\<lambda>ago. Inr (if ago = 0 then 8 else if ago = - 1 then 9 else 10))
               (\<lambda>ago. Inr 2) 2 0 init) = Some Buy
   \<and> next_with (\<lambda>ago. Inr (if ago = 0 then 9 else if ago = - 1 then 9 else 10))
               (\<lambda>ago. Inr 2) 2 0 init = Inr (init, [(2, Close_msg 9)], None)
   \<and> next_with (\<lambda>ago. if ago = 0 then Inr 8 else Inl IndexError)
               (\<lambda>ago. Inr 1) 1 0 init = Inl IndexError"
proof -
  have a: "issued (next_with (\<lambda>ago. Inr (if ago = 0 then 8 else if ago = - 1 then 9 else 10))
               (\<lambda>ago. Inr 2) 2 0 init) = Some Buy"
    using history_guard_amended [of 2 init
        "\<lambda>ago. Inr (if ago = 0 then 8 else if ago = - 1 then 9 else 10)" 8 "\<lambda>ago. Inr 2" 2]
    by (simp add: init_def)
  have b: "next_with (\<lambda>ago. Inr (if ago = 0 then 9 else if ago = - 1 then 9 else 10))
               (\<lambda>ago. Inr 2) 2 0 init = Inr (init, [(2, Close_msg 9)], None)"
    using history_guard_amended [of 2 init
        "\<lambda>ago. Inr (if ago = 0 then 9 else if ago = - 1 then 9 else 10)" 9 "\<lambda>ago. Inr 2" 2]
    by (simp add: init_def)
  have c: "next_with (\<lambda>ago. if ago = 0 then Inr 8 else Inl IndexError)
               (\<lambda>ago. Inr 1) 1 0 init = Inl IndexError"
    by (simp add: next_with_flat init_def)
  from a b c show ?thesis by (simp add: init_def)
qed

lemma step_bar_buy_issued:
  assumes "order (strat sys) = None" and "position sys = 0" and "inflight sys = []"
    and "step stake sys (On_bar b) = Inr sys1" and "inflight sys1 = [Buy]"
  shows "sys1 = sys\<lparr>strat := (strat sys)\<lparr>order := Some Buy\<rparr>, data := data sys @ [b],
                   inflight := [Buy]\<rparr>"
proof (cases "data sys @ [b]" rule: history_cases)
  case none
  then show ?thesis by simp
next
  case (one b0)
  with assms show ?thesis by (simp add: next_bar_one)
next
  case (two b1 b0)
  with assms show ?thesis by (auto simp add: next_bar_two split: if_splits)
next
  case (more hs b2 b1 b0)
  with assms show ?thesis by (auto simp add: next_bar_flat split: if_splits)
qed

text \<open>
  C5. Flat, a bar arrives and \<^verbatim>\<open>next\<close> sends a buy; the engine then reports
  \<open>Canceled\<close>, \<open>Margin\<close> or \<open>Rejected\<close> for it. The state after the notification is
  the state before the bar with the bar added to the history: no pending order, no order in
  flight, position zero, \<^verbatim>\<open>bar_executed\<close> as it was. The three statuses give the same
  result, and \<^verbatim>\<open>notify_order\<close> sends no order.
\<close>

theorem failed_buy_returns_to_flat:
  assumes "st = Canceled \<or> st = Margin \<or> st = Rejected"
    and "order (strat sys) = None" and "position sys = 0" and "inflight sys = []"
    and "step stake sys (On_bar b) = Inr sys1" and "inflight sys1 = [Buy]"
  shows "step stake sys1 (On_order_update 0 st p) = Inr (sys\<lparr>data := data sys @ [b]\<rparr>)
       \<and> order (strat sys1) = Some Buy
       \<and> notify_order (data sys1) (strat sys1) \<lparr>status = st, oside = Buy, executed_price = p\<rparr>
           = Inr (strat sys, [(date b, Order_failed)])"
proof -
  have s1: "sys1 = sys\<lparr>strat := (strat sys)\<lparr>order := Some Buy\<rparr>, data := data sys @ [b],
                       inflight := [Buy]\<rparr>"
    using assms(2-6) by (rule step_bar_buy_issued)
  have same: "(strat sys)\<lparr>order := None\<rparr> = strat sys"
    using assms(2) by simp
  have n: "notify_order (data sys @ [b]) ((strat sys)\<lparr>order := Some Buy\<rparr>)
             \<lparr>status = st, oside = Buy, executed_price = p\<rparr>
           = Inr (strat sys, [(date b, Order_failed)])"
    using assms(1) same by (simp add: notify_order_failed)
  from assms(1) have t: "terminal st" "st \<noteq> Completed"
    by (auto simp add: terminal_def)
  have "step stake sys1 (On_order_update 0 st p) = Inr (sys\<lparr>data := data sys @ [b]\<rparr>)"
    using s1 n t assms(3,4) by (simp add: drop_nth_def)
  with s1 n show ?thesis by simp
qed

theorem failed_buy_returns_to_flat_witness:
  "step 1 (init_system [\<lparr>date = 1, close = 10\<rparr>, \<lparr>date = 2, close = 9\<rparr>]) (On_bar \<lparr>date = 3, close = 8\<rparr>)
     = Inr \<lparr>strat = \<lparr>order = Some Buy, bar_executed = None\<rparr>,
            data = [\<lparr>date = 1, close = 10\<rparr>, \<lparr>date = 2, close = 9\<rparr>, \<lparr>date = 3, close = 8\<rparr>],
            position = 0, inflight = [Buy]\<rparr>
   \<and> step 1 \<lparr>strat = \<lparr>order = Some Buy, bar_executed = None\<rparr>,
            data = [\<lparr>date = 1, close = 10\<rparr>, \<lparr>date = 2, close = 9\<rparr>, \<lparr>date = 3, close = 8\<rparr>],
            position = 0, inflight = [Buy]\<rparr> (On_order_update 0 Margin 0)
     = Inr \<lparr>strat = \<lparr>order = None, bar_executed = None\<rparr>,
            data = [\<lparr>date = 1, close = 10\<rparr>, \<lparr>date = 2, close = 9\<rparr>, \<lparr>date = 3, close = 8\<rparr>],
            position = 0, inflight = []\<rparr>"
proof -
  let ?sys = "init_system [\<lparr>date = 1, close = 10\<rparr>, \<lparr>date = 2, close = 9\<rparr>]"
  let ?sys1 = "\<lparr>strat = \<lparr>order = Some Buy, bar_executed = None\<rparr>,
            data = [\<lparr>date = 1, close = 10\<rparr>, \<lparr>date = 2, close = 9\<rparr>, \<lparr>date = 3, close = 8\<rparr>],
            position = 0, inflight = [Buy]\<rparr>"
  have bar: "step 1 ?sys (On_bar \<lparr>date = 3, close = 8\<rparr>) = Inr ?sys1"
    using next_bar_flat [of init "[]" "\<lparr>date = 1, close = 10\<rparr>" "\<lparr>date = 2, close = 9\<rparr>"
        "\<lparr>date = 3, close = 8\<rparr>"]
    by (simp add: init_system_def init_def)
  have "step 1 ?sys1 (On_order_update 0 Margin 0)
          = Inr (?sys\<lparr>data := data ?sys @ [\<lparr>date = 3, close = 8\<rparr>]\<rparr>)"
    using failed_buy_returns_to_flat [of Margin ?sys 1 "\<lparr>date = 3, close = 8\<rparr>" ?sys1 0] bar
    by (simp add: init_system_def init_def del: step.simps)
  with bar show ?thesis
    by (simp add: init_system_def init_def del: step.simps)
qed

subsection \<open>Claims about every run\<close>

lemma run_init_inv:
  "run stake (init_system h0) evs = Inr sys \<Longrightarrow> inv stake sys"
  using inv_init by (rule run_inv)

lemma next_bar_sell_position:
  assumes "issued (next_bar h pos self) = Some Sell"
  shows "pos \<noteq> 0 \<and> order self = None"
proof (cases h rule: history_cases)
  case none
  with assms show ?thesis by (simp add: next_bar_Nil)
next
  case (one b0)
  with assms next_bar_pending [of self "[]" b0 pos] next_bar_one [of self b0] show ?thesis
    by (cases "order self = None"; cases "pos = 0") auto
next
  case (two b1 b0)
  with assms next_bar_pending [of self "[b1]" b0 pos] next_bar_two [of self b1 b0] show ?thesis
    by (cases "order self = None"; cases "pos = 0") (auto split: if_splits)
next
  case (more hs b2 b1 b0)
  with assms next_bar_pending [of self "hs @ [b2, b1]" b0 pos] next_bar_flat [of self hs b2 b1 b0]
  show ?thesis
    by (cases "order self = None"; cases "pos = 0") (auto split: if_splits)
qed

lemma next_bar_attribute_error:
  "next_bar h pos self = Inl AttributeError
     \<longleftrightarrow> h \<noteq> [] \<and> order self = None \<and> pos \<noteq> 0 \<and> bar_executed self = None"
proof (cases "order self = None")
  case False
  then show ?thesis
    by (cases h rule: rev_cases) (simp_all add: next_bar_Nil next_bar_pending)
next
  case no_order: True
  show ?thesis
  proof (cases "pos = 0")
    case True
    with no_order show ?thesis
      by (cases h rule: history_cases)
        (simp_all add: next_bar_Nil next_bar_one next_bar_two next_bar_flat)
  next
    case False
    with no_order show ?thesis
      by (cases h rule: rev_cases; cases "bar_executed self")
        (simp_all add: next_bar_Nil next_bar_unset next_bar_long)
  qed
qed

text \<open>
  C1. \<^verbatim>\<open>next\<close> sends no order when \<^verbatim>\<open>self.order\<close> is set, for every history,
  position and state of the object. In every state that a run of the engine reaches, from
  any initial history and for any sequence of bars and order notifications, at most one order
  is in flight, and an order in flight is the pending order of the strategy.
\<close>

theorem single_order_invariant:
  "(order self \<noteq> None \<longrightarrow> issued (next_bar h pos self) = None)
   \<and> (run stake (init_system h0) evs = Inr sys
        \<longrightarrow> length (inflight sys) \<le> 1
          \<and> inflight sys = (case order (strat sys) of None \<Rightarrow> [] | Some sd \<Rightarrow> [sd]))"
proof -
  have "issued (next_bar h pos self) = None" if "order self \<noteq> None"
    using that by (cases h rule: rev_cases) (simp_all add: next_bar_Nil next_bar_pending)
  moreover have "length (inflight sys) \<le> 1
      \<and> inflight sys = (case order (strat sys) of None \<Rightarrow> [] | Some sd \<Rightarrow> [sd])"
    if "run stake (init_system h0) evs = Inr sys"
  proof -
    from that have "inv stake sys" by (rule run_init_inv)
    then show ?thesis
      by (cases "order (strat sys)") (simp_all add: inv_def)
  qed
  ultimately show ?thesis by blast
qed

theorem single_order_invariant_witness:
  "run 1 (init_system [\<lparr>date = 1, close = 10\<rparr>, \<lparr>date = 2, close = 9\<rparr>])
       [On_bar \<lparr>date = 3, close = 8\<rparr>, On_order_update 0 Submitted 0, On_bar \<lparr>date = 4, close = 7\<rparr>]
     = Inr \<lparr>strat = \<lparr>order = Some Buy, bar_executed = None\<rparr>,
            data = [\<lparr>date = 1, close = 10\<rparr>, \<lparr>date = 2, close = 9\<rparr>, \<lparr>date = 3, close = 8\<rparr>,
                    \<lparr>date = 4, close = 7\<rparr>],
            position = 0, inflight = [Buy]\<rparr>
   \<and> length [Buy] \<le> (1::nat)
   \<and> issued (next_bar [\<lparr>date = 1, close = 10\<rparr>, \<lparr>date = 2, close = 9\<rparr>, \<lparr>date = 3, close = 8\<rparr>] 0
               \<lparr>order = Some Buy, bar_executed = None\<rparr>) = None"
proof -
  have r: "run 1 (init_system [\<lparr>date = 1, close = 10\<rparr>, \<lparr>date = 2, close = 9\<rparr>])
       [On_bar \<lparr>date = 3, close = 8\<rparr>, On_order_update 0 Submitted 0, On_bar \<lparr>date = 4, close = 7\<rparr>]
     = Inr \<lparr>strat = \<lparr>order = Some Buy, bar_executed = None\<rparr>,
            data = [\<lparr>date = 1, close = 10\<rparr>, \<lparr>date = 2, close = 9\<rparr>, \<lparr>date = 3, close = 8\<rparr>,
                    \<lparr>date = 4, close = 7\<rparr>],
            position = 0, inflight = [Buy]\<rparr>"
    by code_simp
  from r single_order_invariant [of "\<lparr>order = Some Buy, bar_executed = None\<rparr>"
      "[\<lparr>date = 1, close = 10\<rparr>, \<lparr>date = 2, close = 9\<rparr>, \<lparr>date = 3, close = 8\<rparr>]" 0 1
      "[\<lparr>date = 1, close = 10\<rparr>, \<lparr>date = 2, close = 9\<rparr>]"
      "[On_bar \<lparr>date = 3, close = 8\<rparr>, On_order_update 0 Submitted 0, On_bar \<lparr>date = 4, close = 7\<rparr>]"
      "\<lparr>strat = \<lparr>order = Some Buy, bar_executed = None\<rparr>,
            data = [\<lparr>date = 1, close = 10\<rparr>, \<lparr>date = 2, close = 9\<rparr>, \<lparr>date = 3, close = 8\<rparr>,
                    \<lparr>date = 4, close = 7\<rparr>],
            position = 0, inflight = [Buy]\<rparr>"]
  show ?thesis by simp
qed

text \<open>
  C7. In every state that a run reaches the position is zero or one stake, so never
  negative. A sell is in flight only as the single order in flight, against a position of
  exactly one stake that is not zero, and its completion brings the position to zero.
  \<^verbatim>\<open>next\<close> sends a sell only when the position is not zero and no order is pending.
\<close>

theorem position_never_negative:
  assumes "run stake (init_system h0) evs = Inr sys"
  shows "0 \<le> position sys
       \<and> (position sys = 0 \<or> position sys = int stake)
       \<and> (Sell \<in> set (inflight sys)
            \<longrightarrow> inflight sys = [Sell] \<and> position sys = int stake \<and> position sys \<noteq> 0
              \<and> (\<exists>sys'. step stake sys (On_order_update 0 Completed p) = Inr sys'
                         \<and> position sys' = 0 \<and> inflight sys' = []))
       \<and> (\<forall>h pos self. issued (next_bar h pos self) = Some Sell \<longrightarrow> pos \<noteq> 0 \<and> order self = None)"
proof -
  from assms have i: "inv stake sys" by (rule run_init_inv)
  then have a: "0 \<le> position sys" "position sys = 0 \<or> position sys = int stake"
    by (auto simp add: inv_def)
  have b: "inflight sys = [Sell] \<and> position sys = int stake \<and> position sys \<noteq> 0
      \<and> (\<exists>sys'. step stake sys (On_order_update 0 Completed p) = Inr sys'
                 \<and> position sys' = 0 \<and> inflight sys' = [])"
    if s: "Sell \<in> set (inflight sys)"
  proof -
    from i s have o: "order (strat sys) = Some Sell"
      by (cases "order (strat sys)") (auto simp add: inv_def)
    with i have f: "inflight sys = [Sell]" "position sys = int stake" "position sys \<noteq> 0"
      by (simp_all add: inv_def)
    then have "0 < length (inflight sys)" by simp
    from step_update_cases [OF i this, of Completed p] f
    have "\<exists>sys'. step stake sys (On_order_update 0 Completed p) = Inr sys'
                 \<and> position sys' = 0 \<and> inflight sys' = []"
      by (auto simp add: executed_def simp del: step.simps)
    with f show ?thesis by simp
  qed
  from a b next_bar_sell_position show ?thesis by blast
qed

theorem position_never_negative_witness:
  "run 1 (init_system [\<lparr>date = 1, close = 10\<rparr>, \<lparr>date = 2, close = 9\<rparr>])
       [On_bar \<lparr>date = 3, close = 8\<rparr>, On_order_update 0 Completed 8,
        On_bar \<lparr>date = 4, close = 7\<rparr>, On_bar \<lparr>date = 5, close = 7\<rparr>, On_bar \<lparr>date = 6, close = 7\<rparr>,
        On_bar \<lparr>date = 7, close = 7\<rparr>, On_bar \<lparr>date = 8, close = 7\<rparr>]
     = Inr \<lparr>strat = \<lparr>order = Some Sell, bar_executed = Some 3\<rparr>,
            data = [\<lparr>date = 1, close = 10\<rparr>, \<lparr>date = 2, close = 9\<rparr>, \<lparr>date = 3, close = 8\<rparr>,
                    \<lparr>date = 4, close = 7\<rparr>, \<lparr>date = 5, close = 7\<rparr>, \<lparr>date = 6, close = 7\<rparr>,
                    \<lparr>date = 7, close = 7\<rparr>, \<lparr>date = 8, close = 7\<rparr>],
            position = 1, inflight = [Sell]\<rparr>
   \<and> Sell \<in> set [Sell]
   \<and> (\<exists>sys'. step 1 \<lparr>strat = \<lparr>order = Some Sell, bar_executed = Some 3\<rparr>,
            data = [\<lparr>date = 1, close = 10\<rparr>, \<lparr>date = 2, close = 9\<rparr>, \<lparr>date = 3, close = 8\<rparr>,
                    \<lparr>date = 4, close = 7\<rparr>, \<lparr>date = 5, close = 7\<rparr>, \<lparr>date = 6, close = 7\<rparr>,
                    \<lparr>date = 7, close = 7\<rparr>, \<lparr>date = 8, close = 7\<rparr>],
            position = 1, inflight = [Sell]\<rparr> (On_order_update 0 Completed 7) = Inr sys'
          \<and> position sys' = 0 \<and> inflight sys' = [])"
proof -
  let ?evs = "[On_bar \<lparr>date = 3, close = 8\<rparr>, On_order_update 0 Completed 8,
        On_bar \<lparr>date = 4, close = 7\<rparr>, On_bar \<lparr>date = 5, close = 7\<rparr>, On_bar \<lparr>date = 6, close = 7\<rparr>,
        On_bar \<lparr>date = 7, close = 7\<rparr>, On_bar \<lparr>date = 8, close = 7\<rparr>]"
  let ?sys = "\<lparr>strat = \<lparr>order = Some Sell, bar_executed = Some 3\<rparr>,
            data = [\<lparr>date = 1, close = 10\<rparr>, \<lparr>date = 2, close = 9\<rparr>, \<lparr>date = 3, close = 8\<rparr>,
                    \<lparr>date = 4, close = 7\<rparr>, \<lparr>date = 5, close = 7\<rparr>, \<lparr>date = 6, close = 7\<rparr>,
                    \<lparr>date = 7, close = 7\<rparr>, \<lparr>date = 8, close = 7\<rparr>],
            position = 1, inflight = [Sell]\<rparr>"
  have r: "run 1 (init_system [\<lparr>date = 1, close = 10\<rparr>, \<lparr>date = 2, close = 9\<rparr>]) ?evs = Inr ?sys"
    by code_simp
  from r position_never_negative [OF r, of 7]
  show ?thesis by (simp del: step.simps run.simps)
qed

text \<open>
  C9. No run of the engine ends with \<^verbatim>\<open>AttributeError\<close>: \<^verbatim>\<open>next\<close> never reads
  \<^verbatim>\<open>self.bar_executed\<close> before \<^verbatim>\<open>notify_order\<close> has assigned it. In every state
  that a run reaches, a position that is not zero implies that the attribute is assigned, and
  \<^verbatim>\<open>next\<close> with the attribute assigned does not raise \<^verbatim>\<open>AttributeError\<close>. A run
  that starts with two bars or more of history raises no error at all.
\<close>

theorem bar_executed_initialized:
  "run stake (init_system h0) evs \<noteq> Inl AttributeError
   \<and> (run stake (init_system h0) evs = Inr sys \<longrightarrow> position sys \<noteq> 0
        \<longrightarrow> bar_executed (strat sys) \<noteq> None)
   \<and> (bar_executed self \<noteq> None \<longrightarrow> next_bar h pos self \<noteq> Inl AttributeError)
   \<and> (2 \<le> length h0 \<longrightarrow> (\<exists>sys'. run stake (init_system h0) evs = Inr sys'))"
proof -
  have 1: "run stake (init_system h0) evs \<noteq> Inl AttributeError"
    using inv_init by (rule run_no_attribute_error)
  have 2: "bar_executed (strat sys) \<noteq> None"
    if "run stake (init_system h0) evs = Inr sys" and "position sys \<noteq> 0"
    using run_init_inv [OF that(1)] that(2) by (simp add: inv_def)
  have 3: "next_bar h pos self \<noteq> Inl AttributeError" if "bar_executed self \<noteq> None"
    using that by (simp add: next_bar_attribute_error)
  have 4: "\<exists>sys'. run stake (init_system h0) evs = Inr sys'" if "2 \<le> length h0"
    using inv_init [of stake h0] that by (intro run_total) (simp_all add: init_system_def)
  from 1 2 3 4 show ?thesis by blast
qed

theorem bar_executed_initialized_witness:
  "run 1 (init_system [\<lparr>date = 1, close = 10\<rparr>, \<lparr>date = 2, close = 9\<rparr>])
       [On_bar \<lparr>date = 3, close = 8\<rparr>, On_order_update 0 Accepted 0, On_order_update 0 Completed 8,
        On_bar \<lparr>date = 4, close = 7\<rparr>]
     = Inr \<lparr>strat = \<lparr>order = None, bar_executed = Some 3\<rparr>,
            data = [\<lparr>date = 1, close = 10\<rparr>, \<lparr>date = 2, close = 9\<rparr>, \<lparr>date = 3, close = 8\<rparr>,
                    \<lparr>date = 4, close = 7\<rparr>],
            position = 1, inflight = []\<rparr>
   \<and> (1::int) \<noteq> 0 \<and> Some (3::nat) \<noteq> None
   \<and> 2 \<le> length [\<lparr>date = 1, close = 10\<rparr>, \<lparr>date = 2, close = 9\<rparr>]
   \<and> next_bar [\<lparr>date = 1, close = 10\<rparr>, \<lparr>date = 2, close = 9\<rparr>] 1
        \<lparr>order = None, bar_executed = Some 3\<rparr> \<noteq> Inl AttributeError"
proof -
  let ?evs = "[On_bar \<lparr>date = 3, close = 8\<rparr>, On_order_update 0 Accepted 0,
        On_order_update 0 Completed 8, On_bar \<lparr>date = 4, close = 7\<rparr>]"
  let ?sys = "\<lparr>strat = \<lparr>order = None, bar_executed = Some 3\<rparr>,
            data = [\<lparr>date = 1, close = 10\<rparr>, \<lparr>date = 2, close = 9\<rparr>, \<lparr>date = 3, close = 8\<rparr>,
                    \<lparr>date = 4, close = 7\<rparr>],
            position = 1, inflight = []\<rparr>"
  have r: "run 1 (init_system [\<lparr>date = 1, close = 10\<rparr>, \<lparr>date = 2, close = 9\<rparr>]) ?evs = Inr ?sys"
    by code_simp
  from r bar_executed_initialized [of 1 "[\<lparr>date = 1, close = 10\<rparr>, \<lparr>date = 2, close = 9\<rparr>]"
      ?evs ?sys "\<lparr>order = None, bar_executed = Some 3\<rparr>"
      "[\<lparr>date = 1, close = 10\<rparr>, \<lparr>date = 2, close = 9\<rparr>]" 1]
  show ?thesis by (simp del: step.simps run.simps)
qed

end
